theory Spec2Isabelle
  imports Complex_Main
begin

section \<open>Bearing arithmetic (utils/navigation)\<close>

text \<open>
  Angles, accelerations and distances are JavaScript numbers; they are modelled as
  reals. The remainder operator \<^verbatim>\<open>%\<close> truncates the quotient towards zero, so its
  result carries the sign of the dividend. Only positive divisors occur in the program.
  The code computes in doubles; what is proved of \<open>normalizeAngle\<close> below, its range and
  its value at 180, does not depend on rounding.
\<close>

definition js_rem :: "real \<Rightarrow> real \<Rightarrow> real" where
  "js_rem a b = a - b * of_int (if a / b < 0 then \<lceil>a / b\<rceil> else \<lfloor>a / b\<rfloor>)"

definition normalizeAngle :: "real \<Rightarrow> real" where
  "normalizeAngle angle = js_rem (js_rem (angle + 180) 360 + 360) 360 - 180"

section \<open>Beacon scanner (hooks/useBeaconScanner)\<close>

definition TX_POWER :: real where
  "TX_POWER = - 59"

definition ENVIRONMENTAL_FACTOR :: real where
  "ENVIRONMENTAL_FACTOR = 2"

definition estimateDistance :: "real \<Rightarrow> real" where
  "estimateDistance r =
     (if r = 0 then - 1
      else let ratio = r * 1 / TX_POWER
           in if ratio < 1 then ratio ^ 10
              else 10 powr ((TX_POWER - r) / (10 * ENVIRONMENTAL_FACTOR)))"

record Beacon =
  beacon_id :: string
  beacon_name :: "string option"
  rssi :: real
  distance :: real

record Advertisement =
  device_id :: string
  device_name :: "string option"
  adv_rssi :: real

text \<open>\<^verbatim>\<open>device.name || null\<close>: a missing or empty name becomes null.\<close>

definition name_or_null :: "string option \<Rightarrow> string option" where
  "name_or_null n = (case n of None \<Rightarrow> None | Some v \<Rightarrow> if v = [] then None else Some v)"

definition newBeacon :: "Advertisement \<Rightarrow> Beacon" where
  "newBeacon ev =
     \<lparr>beacon_id = device_id ev, beacon_name = name_or_null (device_name ev),
      rssi = adv_rssi ev, distance = estimateDistance (adv_rssi ev)\<rparr>"

fun replace_first :: "string \<Rightarrow> Beacon \<Rightarrow> Beacon list \<Rightarrow> Beacon list" where
  "replace_first i nb [] = [nb]"
| "replace_first i nb (b # bs) =
     (if beacon_id b = i then nb # bs else b # replace_first i nb bs)"

text \<open>
  The state updater of \<^verbatim>\<open>handleAdvertisement\<close>: the beacon with the same id is replaced
  in place, an unseen one is appended, and the list is sorted by distance (a stable sort).
\<close>

definition handleAdvertisement :: "Advertisement \<Rightarrow> Beacon list \<Rightarrow> Beacon list" where
  "handleAdvertisement ev prevBeacons =
     sort_key distance (replace_first (device_id ev) (newBeacon ev) prevBeacons)"

section \<open>Heading smoothing (hooks/useDeviceSensors)\<close>

definition HEADING_SMOOTHING_BUFFER_SIZE :: nat where
  "HEADING_SMOOTHING_BUFFER_SIZE = 10"

text \<open>\<^verbatim>\<open>Math.atan2\<close> on the reals (signed zeros and NaN are outside the model).\<close>

definition atan2 :: "real \<Rightarrow> real \<Rightarrow> real" where
  "atan2 y x =
     (if 0 < x then arctan (y / x)
      else if x < 0 then (if 0 \<le> y then arctan (y / x) + pi else arctan (y / x) - pi)
      else if 0 < y then pi / 2
      else if y < 0 then - (pi / 2)
      else 0)"

text \<open>The buffer as it stands after the wrap test, the push and the shift.\<close>

definition pushHeading :: "real \<Rightarrow> real list \<Rightarrow> real list" where
  "pushHeading newHeading buf =
     (let kept = (if 0 < length buf
                    \<and> 180 < \<bar>newHeading - sum_list buf / real (length buf)\<bar>
                  then [] else buf);
          pushed = kept @ [newHeading]
      in if HEADING_SMOOTHING_BUFFER_SIZE < length pushed then tl pushed else pushed)"

text \<open>
  The value returned for a buffer: the mean of the unit vectors, as a compass angle.
  The code computes it in doubles, the model in real numbers: a value of the model is
  what the code approximates. The properties of the outputs are therefore stated with a
  margin (an output is near a heading, the range includes 360), so that the rounding of
  the code does not decide them.
\<close>

definition averageHeading :: "real list \<Rightarrow> real" where
  "averageHeading buf =
     (let sumX = sum_list (map (\<lambda>angle. cos (angle * pi / 180)) buf);
          sumY = sum_list (map (\<lambda>angle. sin (angle * pi / 180)) buf);
          avgX = sumX / real (length buf);
          avgY = sumY / real (length buf);
          avgAngleDeg = atan2 avgY avgX * 180 / pi
      in if avgAngleDeg < 0 then avgAngleDeg + 360 else avgAngleDeg)"

text \<open>
  \<^verbatim>\<open>headingBuffer\<close> is a constant of the module: one array for the whole process,
  allocated when the module is loaded. \<^verbatim>\<open>getSmoothedHeading\<close> mutates it, so the
  model passes the module state through and returns it updated.
\<close>

record Module =
  headingBuffer :: "real list"

definition module_load :: Module where
  "module_load = \<lparr>headingBuffer = []\<rparr>"

definition getSmoothedHeading :: "real \<Rightarrow> Module \<Rightarrow> real \<times> Module" where
  "getSmoothedHeading newHeading m =
     (let buf = pushHeading newHeading (headingBuffer m)
      in (averageHeading buf, m\<lparr>headingBuffer := buf\<rparr>))"

text \<open>
  The state of one instance of the hook \<^verbatim>\<open>useDeviceSensors\<close>: what \<^verbatim>\<open>useState\<close> and
  \<^verbatim>\<open>useRef\<close> allocate when a component that calls the hook is mounted.
\<close>

record DeviceSensors =
  heading :: "real option"
  gravityRef :: "real \<times> real \<times> real"

definition useDeviceSensors :: DeviceSensors where
  "useDeviceSensors = \<lparr>heading = None, gravityRef = (0, 0, 0)\<rparr>"

record OrientationEvent =
  alpha :: "real option"
  webkitCompassHeading :: "real option"

text \<open>\<^verbatim>\<open>webkitCompassHeading || alpha\<close>: an absent or zero compass heading falls back to alpha.\<close>

definition handleOrientation ::
  "OrientationEvent \<Rightarrow> Module \<times> DeviceSensors \<Rightarrow> Module \<times> DeviceSensors" where
  "handleOrientation ev st =
     (case alpha ev of
        None \<Rightarrow> st
      | Some a \<Rightarrow>
          let compassHeading =
                (case webkitCompassHeading ev of
                   None \<Rightarrow> a
                 | Some w \<Rightarrow> if w = 0 then a else w);
              (h, m) = getSmoothedHeading (360 - compassHeading) (fst st)
          in (m, (snd st)\<lparr>heading := Some h\<rparr>))"


text \<open>
  The circular mean as the specification words it: the angle of the sum of the unit
  vectors, in degrees, brought into the range from 0 to 360.
\<close>

definition circular_mean_spec :: "real list \<Rightarrow> real" where
  "circular_mean_spec buf =
     (let deg = atan2 (sum_list (map (\<lambda>a. sin (a * pi / 180)) buf))
                      (sum_list (map (\<lambda>a. cos (a * pi / 180)) buf)) * 180 / pi
      in if deg < 0 then deg + 360 else deg)"



section \<open>The navigation session (components/patient/ARNavigation)\<close>

definition TOTAL_STEPS :: int where
  "TOTAL_STEPS = 10"

definition ARRIVAL_THRESHOLD_STEPS :: real where
  "ARRIVAL_THRESHOLD_STEPS = 1 / 2"

definition STEP_THRESHOLD :: real where
  "STEP_THRESHOLD = 18 / 10"

definition STEP_LOCKOUT_MS :: int where
  "STEP_LOCKOUT_MS = 400"

record Checkpoint =
  cp_name :: string
  step_checkpoint :: int
  proximity_m :: real

definition BEACON_CHECKPOINTS :: "Checkpoint list" where
  "BEACON_CHECKPOINTS =
     [\<lparr>cp_name = ''Memora-Hallway'', step_checkpoint = 5, proximity_m = 15 / 10\<rparr>]"

datatype NavState = REQUESTING_PERMISSIONS | CALIBRATING | NAVIGATING | ARRIVED

datatype PermissionState = prompt | granted | denied

text \<open>
  The component's state: \<^verbatim>\<open>navState\<close> and \<^verbatim>\<open>steps\<close> from \<^verbatim>\<open>useState\<close>, the two refs
  of the step detector. The step count is a JavaScript number that only ever holds
  integers (0, increments by one, the constants 5 and 10), so it is an \<^typ>\<open>int\<close>.
  Times are \<^verbatim>\<open>Date.now()\<close> readings in milliseconds.
\<close>

record Session =
  navState :: NavState
  steps :: int
  lastStepTimeRef :: int
  isPotentialStepRef :: bool

definition initial_session :: Session where
  "initial_session =
     \<lparr>navState = REQUESTING_PERMISSIONS, steps = 0, lastStepTimeRef = 0,
      isPotentialStepRef = False\<rparr>"

definition magnitude :: "real \<times> real \<times> real \<Rightarrow> real" where
  "magnitude v = (case v of (x, y, z) \<Rightarrow> sqrt (x * x + y * y + z * z))"

text \<open>
  One run of the step detection effect: the current \<^verbatim>\<open>linearAcceleration\<close> (null before
  the first sample) and the reading of the clock.
\<close>

definition stepDetection :: "(real \<times> real \<times> real) option \<Rightarrow> int \<Rightarrow> Session \<Rightarrow> Session" where
  "stepDetection linearAcceleration now s =
     (case linearAcceleration of
        None \<Rightarrow> s
      | Some v \<Rightarrow>
          if navState s \<noteq> NAVIGATING then s
          else if now - lastStepTimeRef s < STEP_LOCKOUT_MS then s
          else if STEP_THRESHOLD < magnitude v \<and> \<not> isPotentialStepRef s
            then s\<lparr>isPotentialStepRef := True\<rparr>
          else if magnitude v < STEP_THRESHOLD * (7 / 10) \<and> isPotentialStepRef s
            then s\<lparr>isPotentialStepRef := False, lastStepTimeRef := now,
                   steps := min (steps s + 1) TOTAL_STEPS\<rparr>
          else s)"





text \<open>
  The state updater queued for one beacon of the list: the first checkpoint with the
  beacon's name, if the beacon is nearer than its radius, raises a lower step count.
\<close>

definition correctSteps :: "Checkpoint list \<Rightarrow> Beacon \<Rightarrow> int \<Rightarrow> int" where
  "correctSteps cps beacon currentSteps =
     (case find (\<lambda>cp. Some (cp_name cp) = beacon_name beacon) cps of
        None \<Rightarrow> currentSteps
      | Some checkpoint \<Rightarrow>
          if distance beacon < proximity_m checkpoint
          then (if currentSteps < step_checkpoint checkpoint
                then step_checkpoint checkpoint else currentSteps)
          else currentSteps)"

definition beaconCorrection :: "Checkpoint list \<Rightarrow> Beacon list \<Rightarrow> Session \<Rightarrow> Session" where
  "beaconCorrection cps beacons s =
     (if navState s \<noteq> NAVIGATING \<or> beacons = [] then s
      else s\<lparr>steps := fold (correctSteps cps) beacons (steps s)\<rparr>)"

definition arrivalEffect :: "Session \<Rightarrow> Session" where
  "arrivalEffect s =
     (if real_of_int TOTAL_STEPS - ARRIVAL_THRESHOLD_STEPS \<le> real_of_int (steps s)
      then s\<lparr>navState := ARRIVED\<rparr> else s)"

text \<open>The arrival effect depends on \<^verbatim>\<open>steps\<close> alone: it runs after a render that changed it.\<close>

definition commit :: "Session \<Rightarrow> Session \<Rightarrow> Session" where
  "commit before after = (if steps after \<noteq> steps before then arrivalEffect after else after)"

definition stepsRemaining :: "Session \<Rightarrow> int" where
  "stepsRemaining s = max 0 (TOTAL_STEPS - steps s)"

text \<open>
  What a session reacts to: a run of the step detection effect, a new beacon list, a
  change of the sensor permission, the camera stream obtained by \<^verbatim>\<open>handleStart\<close>, and
  \<^verbatim>\<open>handleCalibrationComplete\<close>. The handlers are taken as written; the model does not
  restrict an event to the views in which the interface offers it, so what holds of every
  event sequence here holds of every sequence the interface allows.
\<close>

datatype Event =
    Acceleration "(real \<times> real \<times> real) option" int
  | Beacons "Beacon list"
  | Permission PermissionState
  | CameraStream
  | CalibrationComplete

definition session_step :: "Event \<Rightarrow> Session \<Rightarrow> Session" where
  "session_step e s =
     (case e of
        Acceleration a now \<Rightarrow> commit s (stepDetection a now s)
      | Beacons bs \<Rightarrow> commit s (beaconCorrection BEACON_CHECKPOINTS bs s)
      | Permission p \<Rightarrow>
          if navState s = REQUESTING_PERMISSIONS \<and> p = granted
          then s\<lparr>navState := CALIBRATING\<rparr> else s
      | CameraStream \<Rightarrow> s\<lparr>navState := CALIBRATING\<rparr>
      | CalibrationComplete \<Rightarrow> s\<lparr>navState := NAVIGATING\<rparr>)"

fun run :: "Event list \<Rightarrow> Session \<Rightarrow> Session" where
  "run [] s = s"
| "run (e # es) s = run es (session_step e s)"

text \<open>The number of transitions from NAVIGATING to ARRIVED along a run.\<close>

fun arrivals :: "Event list \<Rightarrow> Session \<Rightarrow> nat" where
  "arrivals [] s = 0"
| "arrivals (e # es) s =
     (if navState s = NAVIGATING \<and> navState (session_step e s) = ARRIVED then 1 else 0)
       + arrivals es (session_step e s)"

subsection \<open>A sample session\<close>

text \<open>
  The hallway beacon seen at one metre, and a stride: a sample above the step threshold
  followed, 100 ms later, by one below the lower threshold. The sample walk grants the
  permission, ends calibration, passes the hallway beacon and takes five strides one
  second apart.
\<close>

definition hallway_beacon :: Beacon where
  "hallway_beacon =
     \<lparr>beacon_id = ''b1'', beacon_name = Some ''Memora-Hallway'', rssi = - 59, distance = 1\<rparr>"

definition stride :: "int \<Rightarrow> Event list" where
  "stride t = [Acceleration (Some (2, 0, 0)) t, Acceleration (Some (1, 0, 0)) (t + 100)]"

definition sample_walk :: "Event list" where
  "sample_walk =
     [Permission granted, CalibrationComplete, Beacons [hallway_beacon]]
     @ stride 1000 @ stride 2000 @ stride 3000 @ stride 4000 @ stride 5000"

section \<open>Calibration (components/patient/ARNavigation/CalibrationModal)\<close>

definition TOTAL_SEGMENTS :: nat where
  "TOTAL_SEGMENTS = 12"

text \<open>
  A JavaScript \<^verbatim>\<open>Set\<close> keeps its elements in insertion order and adds a value only when
  it is absent: a duplicate-free list, whose length is the set's size.
\<close>

definition set_add :: "int \<Rightarrow> int list \<Rightarrow> int list" where
  "set_add x xs = (if x \<in> set xs then xs else xs @ [x])"

text \<open>
  The modal's state, its two pending timeouts (milliseconds left), and what it has done
  to its parent: \<^verbatim>\<open>completions\<close> counts the calls of \<^verbatim>\<open>onComplete\<close>. The parent answers
  the call by leaving CALIBRATING, which unmounts the modal and clears its timeouts.
  The effect that schedules the call depends on \<^verbatim>\<open>isComplete\<close> and on the
  \<^verbatim>\<open>onComplete\<close> property: a change of either runs its cleanup and the effect again.
\<close>

record Calibration =
  coveredSegments :: "int list"
  showSkipButton :: bool
  skipTimer :: "nat option"
  completeTimer :: "nat option"
  completions :: nat
  mounted :: bool

definition calibration_mount :: Calibration where
  "calibration_mount =
     \<lparr>coveredSegments = [], showSkipButton = False, skipTimer = Some 7000,
      completeTimer = None, completions = 0, mounted = True\<rparr>"

definition progress :: "Calibration \<Rightarrow> real" where
  "progress c = real (length (coveredSegments c)) / real TOTAL_SEGMENTS"

definition isComplete :: "Calibration \<Rightarrow> bool" where
  "isComplete c = (1 \<le> progress c)"

definition segment_of :: "real \<Rightarrow> int" where
  "segment_of h = \<lfloor>h / (360 / real TOTAL_SEGMENTS)\<rfloor>"

definition onComplete :: "Calibration \<Rightarrow> Calibration" where
  "onComplete c =
     c\<lparr>completions := completions c + 1, mounted := False,
       skipTimer := None, completeTimer := None\<rparr>"

text \<open>
  One run of the completion effect after its cleanup: the pending timeout is cleared and
  a new one of 1500 ms is armed if the flag is set. After a render the effect runs only
  if one of its dependencies has changed.
\<close>

definition rearm :: "Calibration \<Rightarrow> Calibration" where
  "rearm c = c\<lparr>completeTimer := (if isComplete c then Some 1500 else None)\<rparr>"

definition completionEffect :: "bool \<Rightarrow> Calibration \<Rightarrow> Calibration" where
  "completionEffect was c = (if isComplete c = was then c else rearm c)"

text \<open>
  What the modal reacts to: a new value of \<^verbatim>\<open>heading\<close> (null before the first sample),
  the passing of some milliseconds, a click on the skip button, and a new function
  passed as \<^verbatim>\<open>onComplete\<close>.
\<close>

datatype CalEvent = HeadingSample "real option" | Tick nat | SkipClick | CallbackChange

definition expire :: "nat \<Rightarrow> nat option \<Rightarrow> bool" where
  "expire d t = (case t of None \<Rightarrow> False | Some r \<Rightarrow> r \<le> d)"

definition remaining :: "nat \<Rightarrow> nat option \<Rightarrow> nat option" where
  "remaining d t = (case t of None \<Rightarrow> None | Some r \<Rightarrow> if r \<le> d then None else Some (r - d))"

definition calibration_step :: "CalEvent \<Rightarrow> Calibration \<Rightarrow> Calibration" where
  "calibration_step e c =
     (if \<not> mounted c then c
      else case e of
        HeadingSample None \<Rightarrow> c
      | HeadingSample (Some h) \<Rightarrow>
          completionEffect (isComplete c)
            (c\<lparr>coveredSegments := set_add (segment_of h) (coveredSegments c)\<rparr>)
      | Tick d \<Rightarrow>
          let c1 = c\<lparr>showSkipButton := (showSkipButton c \<or> expire d (skipTimer c)),
                     skipTimer := remaining d (skipTimer c)\<rparr>
          in if expire d (completeTimer c1) then onComplete c1
             else c1\<lparr>completeTimer := remaining d (completeTimer c1)\<rparr>
      | SkipClick \<Rightarrow>
          if \<not> isComplete c \<and> showSkipButton c then onComplete c else c
      | CallbackChange \<Rightarrow> rearm c)"

fun calibrate :: "CalEvent list \<Rightarrow> Calibration \<Rightarrow> Calibration" where
  "calibrate [] c = c"
| "calibrate (e # es) c = calibrate es (calibration_step e c)"

subsection \<open>The modal inside the application\<close>

text \<open>
  An instance of the hook \<^verbatim>\<open>useDeviceSensors\<close> with its permission state, which starts
  at \<^verbatim>\<open>'prompt'\<close>. Only \<^verbatim>\<open>requestPermissions\<close> changes it (the argument is the answer to
  the prompt; platforms without a prompt always grant), and the effect of the hook attaches
  the orientation and motion listeners only while the state is \<^verbatim>\<open>'granted'\<close>.
\<close>

record Hook =
  permissionState :: PermissionState
  sensors :: DeviceSensors

definition mountHook :: Hook where
  "mountHook = \<lparr>permissionState = prompt, sensors = useDeviceSensors\<rparr>"

definition requestPermissions :: "bool \<Rightarrow> Hook \<Rightarrow> Hook" where
  "requestPermissions answer h = h\<lparr>permissionState := (if answer then granted else denied)\<rparr>"

definition deviceorientation :: "OrientationEvent \<Rightarrow> Module \<times> Hook \<Rightarrow> Module \<times> Hook" where
  "deviceorientation ev st =
     (case st of (m, h) \<Rightarrow>
        if permissionState h = granted
        then (case handleOrientation ev (m, sensors h) of (m1, s1) \<Rightarrow> (m1, h\<lparr>sensors := s1\<rparr>))
        else (m, h))"

text \<open>
  The application while CALIBRATING. \<^verbatim>\<open>ARNavigation\<close> has the instance of the hook on
  which \<^verbatim>\<open>handleStart\<close> has called \<^verbatim>\<open>requestPermissions\<close>; \<^verbatim>\<open>CalibrationModal\<close> calls
  the hook again and so has an instance of its own, mounted with the modal, on which
  nothing calls \<^verbatim>\<open>requestPermissions\<close>. The modal reads \<^verbatim>\<open>heading\<close> from its own
  instance. \<^verbatim>\<open>ARNavigation\<close> passes \<^verbatim>\<open>handleCalibrationComplete\<close>, a function created
  anew by each of its renders, so each render of the parent is a change of the modal's
  \<^verbatim>\<open>onComplete\<close>; the parent renders when its \<^verbatim>\<open>heading\<close> changes and on each motion
  reading its instance receives.
\<close>

record CalibratingApp =
  app_module :: Module
  parent_hook :: Hook
  modal_hook :: Hook
  modal :: Calibration

definition enter_calibration :: "Module \<Rightarrow> Hook \<Rightarrow> CalibratingApp" where
  "enter_calibration m parent =
     \<lparr>app_module = m, parent_hook = parent, modal_hook = mountHook, modal = calibration_mount\<rparr>"

datatype AppEvent = Orientation OrientationEvent | Motion | Elapse nat | Click

definition app_step :: "AppEvent \<Rightarrow> CalibratingApp \<Rightarrow> CalibratingApp" where
  "app_step e a =
     (case e of
        Orientation ev \<Rightarrow>
          (case deviceorientation ev (app_module a, parent_hook a) of (m1, p1) \<Rightarrow>
           case deviceorientation ev (m1, modal_hook a) of (m2, q1) \<Rightarrow>
             let c1 = (if heading (sensors q1) \<noteq> heading (sensors (modal_hook a))
                       then calibration_step (HeadingSample (heading (sensors q1))) (modal a)
                       else modal a);
                 c2 = (if heading (sensors p1) \<noteq> heading (sensors (parent_hook a))
                       then calibration_step CallbackChange c1 else c1)
             in \<lparr>app_module = m2, parent_hook = p1, modal_hook = q1, modal = c2\<rparr>)
      | Motion \<Rightarrow>
          if permissionState (parent_hook a) = granted
          then a\<lparr>modal := calibration_step CallbackChange (modal a)\<rparr> else a
      | Elapse d \<Rightarrow> a\<lparr>modal := calibration_step (Tick d) (modal a)\<rparr>
      | Click \<Rightarrow> a\<lparr>modal := calibration_step SkipClick (modal a)\<rparr>)"

fun app_run :: "AppEvent list \<Rightarrow> CalibratingApp \<Rightarrow> CalibratingApp" where
  "app_run [] a = a"
| "app_run (e # es) a = app_run es (app_step e a)"

text \<open>
  A full turn of the device: twelve orientation events, one in each sector of 30 degrees
  (the raw heading is 360 minus alpha), with motion readings in between.
\<close>

definition turn_to :: "real \<Rightarrow> AppEvent" where
  "turn_to a = Orientation \<lparr>alpha = Some a, webkitCompassHeading = None\<rparr>"

definition full_rotation :: "AppEvent list" where
  "full_rotation =
     [turn_to 345, Motion, turn_to 315, turn_to 285, Motion, turn_to 255, turn_to 225,
      turn_to 195, Motion, turn_to 165, turn_to 135, turn_to 105, turn_to 75, Motion,
      turn_to 45, turn_to 15]"

definition calibration_start :: CalibratingApp where
  "calibration_start = enter_calibration module_load (requestPermissions True mountHook)"

text \<open>The modal's instance of the hook does not listen, and the modal has covered nothing.\<close>

definition deaf :: "CalibratingApp \<Rightarrow> bool" where
  "deaf a \<longleftrightarrow> permissionState (modal_hook a) = prompt
     \<and> heading (sensors (modal_hook a)) = None
     \<and> coveredSegments (modal a) = []
     \<and> completeTimer (modal a) = None"

section \<open>Properties\<close>

subsection \<open>Angle normalisation\<close>

lemma js_rem_nonneg:
  assumes "0 \<le> a" and "0 < b"
  shows "0 \<le> js_rem a b \<and> js_rem a b < b"
proof -
  from assms have nn: "\<not> a / b < 0" by (simp add: not_less)
  have "of_int \<lfloor>a / b\<rfloor> \<le> a / b" by simp
  then have "of_int \<lfloor>a / b\<rfloor> * b \<le> a" using \<open>0 < b\<close> by (simp only: pos_le_divide_eq)
  then have lower: "b * of_int \<lfloor>a / b\<rfloor> \<le> a" by (simp only: mult.commute)
  have "a / b < of_int \<lfloor>a / b\<rfloor> + 1" by linarith
  then have "a < (of_int \<lfloor>a / b\<rfloor> + 1) * b" using \<open>0 < b\<close> by (simp only: pos_divide_less_eq)
  then have upper: "a < b * (of_int \<lfloor>a / b\<rfloor> + 1)" by (simp only: mult.commute)
  show ?thesis using nn lower upper by (simp add: js_rem_def algebra_simps)
qed

lemma js_rem_lower:
  assumes "0 < b"
  shows "- b < js_rem a b"
proof (cases "a / b < 0")
  case True
  have "of_int \<lceil>a / b\<rceil> < a / b + 1" by linarith
  then have "of_int \<lceil>a / b\<rceil> - 1 < a / b" by simp
  then have "(of_int \<lceil>a / b\<rceil> - 1) * b < a" using assms by (simp only: pos_less_divide_eq)
  then have "b * of_int \<lceil>a / b\<rceil> < a + b" by (simp add: algebra_simps)
  then show ?thesis using True by (simp add: js_rem_def)
next
  case False
  then have "0 \<le> a" using assms by (simp add: not_less zero_le_divide_iff)
  then show ?thesis using js_rem_nonneg[of a b] assms by linarith
qed

lemma normalizeAngle_bounds: "- 180 \<le> normalizeAngle x \<and> normalizeAngle x < 180"
proof -
  have "- 360 < js_rem (x + 180) 360" using js_rem_lower[of 360 "x + 180"] by simp
  then have "0 \<le> js_rem (x + 180) 360 + 360" by simp
  from js_rem_nonneg[OF this, of 360] show ?thesis by (simp add: normalizeAngle_def)
qed

text \<open>
  Claim C2, as stated: every \<open>normalizeAngle x\<close> lies in the interval from -180
  (excluded) to 180 (included), and 180 is sent to 180. The code sends 180 to -180,
  which is outside that interval.
\<close>

theorem C2_counterexample:
  "normalizeAngle 180 \<noteq> 180 \<and> \<not> (- 180 < normalizeAngle 180 \<and> normalizeAngle 180 \<le> 180)"
  by (simp add: normalizeAngle_def js_rem_def)

text \<open>
  Claim C2, amended: for every \<open>x\<close>, \<open>normalizeAngle x\<close> lies in the interval from -180
  (included) to 180 (excluded); in particular 180 is sent to -180.
\<close>

theorem C2_normalizeAngle_half_open:
  "- 180 \<le> normalizeAngle x \<and> normalizeAngle x < 180 \<and> normalizeAngle 180 = - 180"
proof -
  have "normalizeAngle 180 = - 180"
    by (simp add: normalizeAngle_def js_rem_def)
  then show ?thesis using normalizeAngle_bounds[of x] by simp
qed


subsection \<open>Distance estimate and checkpoint correction\<close>

lemma estimateDistance_known_nonneg:
  assumes "r \<noteq> 0"
  shows "0 \<le> estimateDistance r"
proof -
  have "(0::real) \<le> (r / TX_POWER) ^ 10"
    using zero_le_even_power[of 10 "r / TX_POWER"] by simp
  moreover have "(0::real) \<le> 10 powr ((TX_POWER - r) / (10 * ENVIRONMENTAL_FACTOR))"
    by simp
  ultimately show ?thesis using assms by (simp add: estimateDistance_def Let_def)
qed

text \<open>The sentinel -1 is returned for an RSSI of 0 and for no other reading.\<close>

lemma estimateDistance_unknown_iff: "estimateDistance r = - 1 \<longleftrightarrow> r = 0"
proof
  assume "estimateDistance r = - 1"
  then show "r = 0" using estimateDistance_known_nonneg[of r] by (cases "r = 0") auto
next
  assume "r = 0"
  then show "estimateDistance r = - 1" by (simp add: estimateDistance_def)
qed


lemma correctSteps_ge: "cur \<le> correctSteps cps b cur"
  by (simp add: correctSteps_def split: option.split)


lemma fold_correctSteps_ge: "cur \<le> fold (correctSteps cps) bs cur"
proof (induction bs arbitrary: cur)
  case Nil
  show ?case by simp
next
  case (Cons b bs)
  have "cur \<le> correctSteps cps b cur" by (rule correctSteps_ge)
  also have "\<dots> \<le> fold (correctSteps cps) bs (correctSteps cps b cur)" by (rule Cons.IH)
  finally show ?case by simp
qed

text \<open>With the configured checkpoint, a correction yields the old count or 5.\<close>

lemma correctSteps_configured:
  "correctSteps BEACON_CHECKPOINTS b cur = cur \<or> correctSteps BEACON_CHECKPOINTS b cur = 5"
  by (simp add: correctSteps_def BEACON_CHECKPOINTS_def)

lemma fold_correctSteps_configured:
  "fold (correctSteps BEACON_CHECKPOINTS) bs cur = cur
   \<or> fold (correctSteps BEACON_CHECKPOINTS) bs cur = 5"
proof (induction bs arbitrary: cur)
  case Nil
  show ?case by simp
next
  case (Cons b bs)
  from correctSteps_configured[of b cur] show ?case
  proof
    assume "correctSteps BEACON_CHECKPOINTS b cur = cur"
    then show ?thesis using Cons.IH[of cur] by simp
  next
    assume five: "correctSteps BEACON_CHECKPOINTS b cur = 5"
    have "5 \<le> fold (correctSteps BEACON_CHECKPOINTS) bs 5" by (rule fold_correctSteps_ge)
    then show ?thesis using Cons.IH[of 5] five by auto
  qed
qed

text \<open>
  Claim C1 says that an observation with RSSI 0, whose distance is the sentinel, never
  changes the step count. In the code the sentinel is the number -1, which is below
  every proximity radius: the advertisement of the hallway beacon with RSSI 0 raises a
  step count of 2 to 5.
\<close>

theorem C1_unknown_distance_is_corrected:
  "distance (newBeacon \<lparr>device_id = ''b1'', device_name = Some ''Memora-Hallway'', adv_rssi = 0\<rparr>) = - 1
   \<and> steps (session_step
        (Beacons (handleAdvertisement
           \<lparr>device_id = ''b1'', device_name = Some ''Memora-Hallway'', adv_rssi = 0\<rparr> []))
        (initial_session\<lparr>navState := NAVIGATING, steps := 2\<rparr>)) = 5"
  by (simp add: newBeacon_def name_or_null_def estimateDistance_def handleAdvertisement_def
      session_step_def beaconCorrection_def correctSteps_def BEACON_CHECKPOINTS_def
      commit_def arrivalEffect_def TOTAL_STEPS_def ARRIVAL_THRESHOLD_STEPS_def
      initial_session_def)




subsection \<open>The session: step count and arrival\<close>

lemmas session_eval = session_step_def commit_def arrivalEffect_def stepDetection_def
  beaconCorrection_def correctSteps_def BEACON_CHECKPOINTS_def magnitude_def
  TOTAL_STEPS_def ARRIVAL_THRESHOLD_STEPS_def STEP_THRESHOLD_def STEP_LOCKOUT_MS_def
  initial_session_def hallway_beacon_def stride_def sample_walk_def stepsRemaining_def

lemma stepDetection_navState: "navState (stepDetection a now s) = navState s"
  by (simp add: stepDetection_def split: option.split)

lemma stepDetection_steps:
  "steps (stepDetection a now s) = steps s
   \<or> (navState s = NAVIGATING \<and> steps (stepDetection a now s) = min (steps s + 1) TOTAL_STEPS)"
  by (simp add: stepDetection_def split: option.split)

lemma beaconCorrection_navState: "navState (beaconCorrection cps bs s) = navState s"
  by (simp add: beaconCorrection_def)

lemma beaconCorrection_ge: "steps s \<le> steps (beaconCorrection cps bs s)"
  using fold_correctSteps_ge[of "steps s" cps bs] by (simp add: beaconCorrection_def)

lemma beaconCorrection_steps:
  "steps (beaconCorrection BEACON_CHECKPOINTS bs s) = steps s
   \<or> (navState s = NAVIGATING \<and> steps s < 5
       \<and> steps (beaconCorrection BEACON_CHECKPOINTS bs s) = 5)"
  using fold_correctSteps_configured[of bs "steps s"]
    fold_correctSteps_ge[of "steps s" BEACON_CHECKPOINTS bs]
  by (auto simp: beaconCorrection_def)

text \<open>Step counts are whole numbers, so the threshold 9.5 is reached exactly at 10.\<close>

lemma threshold_iff:
  "real_of_int TOTAL_STEPS - ARRIVAL_THRESHOLD_STEPS \<le> real_of_int k \<longleftrightarrow> TOTAL_STEPS \<le> k"
  unfolding TOTAL_STEPS_def ARRIVAL_THRESHOLD_STEPS_def by linarith

lemma commit_steps: "steps (commit s t) = steps t"
  by (simp add: commit_def arrivalEffect_def)

lemma commit_navState:
  "navState (commit s t) =
     (if steps t \<noteq> steps s \<and> TOTAL_STEPS \<le> steps t then ARRIVED else navState t)"
  by (simp add: commit_def arrivalEffect_def threshold_iff)

lemma session_step_steps:
  "steps (session_step e s) = steps s
   \<or> (navState s = NAVIGATING \<and>
       (steps (session_step e s) = min (steps s + 1) TOTAL_STEPS
        \<or> (steps s < 5 \<and> steps (session_step e s) = 5)))"
proof (cases e)
  case (Acceleration a now)
  then show ?thesis using stepDetection_steps[of a now s]
    by (auto simp: session_step_def commit_steps)
next
  case (Beacons bs)
  then show ?thesis using beaconCorrection_steps[of bs s]
    by (auto simp: session_step_def commit_steps)
qed (simp_all add: session_step_def)

lemma session_step_navState:
  "navState (session_step e s) =
     (if steps (session_step e s) \<noteq> steps s \<and> TOTAL_STEPS \<le> steps (session_step e s)
      then ARRIVED
      else case e of
             Permission p \<Rightarrow> if navState s = REQUESTING_PERMISSIONS \<and> p = granted
                              then CALIBRATING else navState s
           | CameraStream \<Rightarrow> CALIBRATING
           | CalibrationComplete \<Rightarrow> NAVIGATING
           | _ \<Rightarrow> navState s)"
  by (cases e)
    (simp_all add: session_step_def commit_steps commit_navState stepDetection_navState
      beaconCorrection_navState)

lemma session_step_bounds:
  assumes "steps s \<le> TOTAL_STEPS"
  shows "steps s \<le> steps (session_step e s) \<and> steps (session_step e s) \<le> TOTAL_STEPS"
  using session_step_steps[of e s] assms by (auto simp: TOTAL_STEPS_def)

lemma run_append: "run (es @ es') s = run es' (run es s)"
  by (induction es arbitrary: s) simp_all

lemma run_bounds:
  assumes "steps s \<le> TOTAL_STEPS"
  shows "steps s \<le> steps (run es s) \<and> steps (run es s) \<le> TOTAL_STEPS"
  using assms
proof (induction es arbitrary: s)
  case Nil
  then show ?case by simp
next
  case (Cons e es)
  from session_step_bounds[OF Cons.prems, of e]
  have 1: "steps s \<le> steps (session_step e s)" and 2: "steps (session_step e s) \<le> TOTAL_STEPS"
    by simp_all
  from Cons.IH[OF 2] 1 show ?case by simp
qed

text \<open>Only the arrival effect, run after a change of the step count, enters ARRIVED.\<close>

lemma arrived_only_by_effect:
  assumes "navState (session_step e s) = ARRIVED" and "navState s \<noteq> ARRIVED"
  shows "steps (session_step e s) \<noteq> steps s \<and> TOTAL_STEPS \<le> steps (session_step e s)"
proof (rule ccontr)
  assume "\<not> ?thesis"
  then have "navState (session_step e s) =
     (case e of
        Permission p \<Rightarrow> if navState s = REQUESTING_PERMISSIONS \<and> p = granted
                         then CALIBRATING else navState s
      | CameraStream \<Rightarrow> CALIBRATING
      | CalibrationComplete \<Rightarrow> NAVIGATING
      | _ \<Rightarrow> navState s)"
    by (simp only: session_step_navState[of e s] if_False)
  then show False using assms by (cases e) (simp_all split: if_splits)
qed

lemma transition_iff:
  assumes "steps s \<le> TOTAL_STEPS"
  shows "(navState s = NAVIGATING \<and> navState (session_step e s) = ARRIVED)
         \<longleftrightarrow> (steps s < TOTAL_STEPS \<and> steps (session_step e s) = TOTAL_STEPS)"
proof
  assume "navState s = NAVIGATING \<and> navState (session_step e s) = ARRIVED"
  then have "steps (session_step e s) \<noteq> steps s \<and> TOTAL_STEPS \<le> steps (session_step e s)"
    using arrived_only_by_effect[of e s] by simp
  then show "steps s < TOTAL_STEPS \<and> steps (session_step e s) = TOTAL_STEPS"
    using session_step_bounds[OF assms, of e] by linarith
next
  assume r: "steps s < TOTAL_STEPS \<and> steps (session_step e s) = TOTAL_STEPS"
  then have ch: "steps (session_step e s) \<noteq> steps s" by simp
  then have "navState s = NAVIGATING" using session_step_steps[of e s] by blast
  moreover have "navState (session_step e s) = ARRIVED"
    using ch r by (simp add: session_step_navState[of e s])
  ultimately show "navState s = NAVIGATING \<and> navState (session_step e s) = ARRIVED" by simp
qed

lemma arrivals_count:
  assumes "steps s \<le> TOTAL_STEPS"
  shows "arrivals es s = (if steps s < TOTAL_STEPS \<and> steps (run es s) = TOTAL_STEPS then 1 else 0)"
  using assms
proof (induction es arbitrary: s)
  case Nil
  then show ?case by simp
next
  case (Cons e es)
  let ?t = "session_step e s"
  from session_step_bounds[OF Cons.prems, of e]
  have le: "steps s \<le> steps ?t" and up: "steps ?t \<le> TOTAL_STEPS" by simp_all
  have ih: "arrivals es ?t = (if steps ?t < TOTAL_STEPS \<and> steps (run es ?t) = TOTAL_STEPS then 1 else 0)"
    by (rule Cons.IH[OF up])
  have stay: "steps ?t = TOTAL_STEPS \<Longrightarrow> steps (run es ?t) = TOTAL_STEPS"
    using run_bounds[OF up, of es] by simp
  show ?case
  proof (cases "steps s < TOTAL_STEPS \<and> steps ?t = TOTAL_STEPS")
    case True
    then have "navState s = NAVIGATING \<and> navState ?t = ARRIVED"
      using transition_iff[OF Cons.prems, of e] by simp
    moreover have "arrivals es ?t = 0" using ih True by simp
    moreover have "steps (run es ?t) = TOTAL_STEPS" using stay True by simp
    ultimately show ?thesis using True by simp
  next
    case False
    then have no: "\<not> (navState s = NAVIGATING \<and> navState ?t = ARRIVED)"
      using transition_iff[OF Cons.prems, of e] by simp
    show ?thesis
    proof (cases "steps s < TOTAL_STEPS")
      case True
      then have "steps ?t < TOTAL_STEPS" using False up by simp
      then show ?thesis using no ih True by simp
    next
      case False
      then have "steps ?t = TOTAL_STEPS" using le up Cons.prems by simp
      then show ?thesis using no ih False by simp
    qed
  qed
qed

lemma initial_steps: "steps initial_session = 0 \<and> steps initial_session < TOTAL_STEPS"
  by (simp add: initial_session_def TOTAL_STEPS_def)

lemma reachable_bounds:
  "0 \<le> steps (run es initial_session) \<and> steps (run es initial_session) \<le> TOTAL_STEPS"
  using run_bounds[of initial_session es] initial_steps by simp

lemma arrived_has_all_steps:
  assumes "steps s \<le> TOTAL_STEPS" and "navState s = ARRIVED \<longrightarrow> steps s = TOTAL_STEPS"
  shows "navState (run es s) = ARRIVED \<longrightarrow> steps (run es s) = TOTAL_STEPS"
  using assms
proof (induction es arbitrary: s)
  case Nil
  then show ?case by simp
next
  case (Cons e es)
  let ?t = "session_step e s"
  from session_step_bounds[OF Cons.prems(1), of e]
  have le: "steps s \<le> steps ?t" and up: "steps ?t \<le> TOTAL_STEPS" by simp_all
  have "navState ?t = ARRIVED \<longrightarrow> steps ?t = TOTAL_STEPS"
  proof
    assume a: "navState ?t = ARRIVED"
    show "steps ?t = TOTAL_STEPS"
    proof (cases "navState s = ARRIVED")
      case True
      then show ?thesis using Cons.prems(2) le up by simp
    next
      case False
      then show ?thesis using arrived_only_by_effect[OF a] up by simp
    qed
  qed
  from Cons.IH[OF up this] show ?case by simp
qed

text \<open>
  Claim C3: along every run of a session the transition from NAVIGATING to ARRIVED
  happens exactly when the step count first reaches \<open>TOTAL_STEPS - ARRIVAL_THRESHOLD_STEPS\<close>
  (9.5, that is at the tenth step), hence once in a run that reaches it and never
  twice; \<open>stepsRemaining\<close> is \<open>max 0 (TOTAL_STEPS - steps)\<close> and is 0 from arrival on.
\<close>

theorem C3_arrival_exactly_once:
  "arrivals es initial_session =
     (if real_of_int TOTAL_STEPS - ARRIVAL_THRESHOLD_STEPS
           \<le> real_of_int (steps (run es initial_session)) then 1 else 0)
   \<and> ((navState (run es initial_session) = NAVIGATING
         \<and> navState (run (es @ [e]) initial_session) = ARRIVED)
        \<longleftrightarrow> (real_of_int (steps (run es initial_session))
               < real_of_int TOTAL_STEPS - ARRIVAL_THRESHOLD_STEPS
             \<and> real_of_int TOTAL_STEPS - ARRIVAL_THRESHOLD_STEPS
               \<le> real_of_int (steps (run (es @ [e]) initial_session))))
   \<and> (real_of_int TOTAL_STEPS - ARRIVAL_THRESHOLD_STEPS
         \<le> real_of_int (steps (run es initial_session))
        \<longleftrightarrow> steps (run es initial_session) = 10)
   \<and> stepsRemaining (run es initial_session)
       = max 0 (TOTAL_STEPS - steps (run es initial_session))
   \<and> (real_of_int TOTAL_STEPS - ARRIVAL_THRESHOLD_STEPS
         \<le> real_of_int (steps (run es initial_session))
        \<longrightarrow> stepsRemaining (run es initial_session) = 0)"
proof -
  let ?s = "run es initial_session"
  have b: "steps ?s \<le> TOTAL_STEPS" using reachable_bounds[of es] by simp
  have count: "arrivals es initial_session = (if TOTAL_STEPS \<le> steps ?s then 1 else 0)"
    using arrivals_count[of initial_session es] initial_steps b by auto
  have "run (es @ [e]) initial_session = session_step e ?s" by (simp add: run_append)
  then have tr: "(navState ?s = NAVIGATING \<and> navState (run (es @ [e]) initial_session) = ARRIVED)
        \<longleftrightarrow> (steps ?s < TOTAL_STEPS \<and> TOTAL_STEPS \<le> steps (run (es @ [e]) initial_session))"
    using transition_iff[OF b, of e] session_step_bounds[OF b, of e] by auto
  have ten: "TOTAL_STEPS \<le> steps ?s \<longleftrightarrow> steps ?s = 10" using b by (auto simp: TOTAL_STEPS_def)
  have lt: "real_of_int (steps ?s) < real_of_int TOTAL_STEPS - ARRIVAL_THRESHOLD_STEPS
            \<longleftrightarrow> steps ?s < TOTAL_STEPS"
    using threshold_iff[of "steps ?s"] by linarith
  have rem: "TOTAL_STEPS \<le> steps ?s \<longrightarrow> stepsRemaining ?s = 0"
    by (simp add: stepsRemaining_def)
  show ?thesis
    unfolding threshold_iff lt using count tr ten rem by (simp add: stepsRemaining_def)
qed

theorem C3_arrival_exactly_once_witness:
  "real_of_int TOTAL_STEPS - ARRIVAL_THRESHOLD_STEPS
     \<le> real_of_int (steps (run sample_walk initial_session))
   \<and> arrivals sample_walk initial_session = 1
   \<and> navState (run sample_walk initial_session) = ARRIVED
   \<and> stepsRemaining (run sample_walk initial_session) = 0"
proof -
  have r: "run sample_walk initial_session =
     \<lparr>navState = ARRIVED, steps = 10, lastStepTimeRef = 5100, isPotentialStepRef = False\<rparr>"
    by (simp add: session_eval)
  have t: "real_of_int TOTAL_STEPS - ARRIVAL_THRESHOLD_STEPS
     \<le> real_of_int (steps (run sample_walk initial_session))"
    by (simp add: r TOTAL_STEPS_def ARRIVAL_THRESHOLD_STEPS_def)
  show ?thesis
    using t C3_arrival_exactly_once[of sample_walk CameraStream] by (simp add: r)
qed

text \<open>
  Claim C6: within a session the step count never decreases: it is at least as large
  after any further events as before them; a run of the step detection effect leaves it
  or adds one, and a beacon correction never lowers it.
\<close>

theorem C6_steps_never_decrease:
  "steps (run es initial_session) \<le> steps (run (es @ es') initial_session)
   \<and> (steps (stepDetection a now (run es initial_session)) = steps (run es initial_session)
      \<or> steps (stepDetection a now (run es initial_session)) = steps (run es initial_session) + 1)
   \<and> steps (run es initial_session)
       \<le> steps (beaconCorrection cps bs (run es initial_session))"
proof -
  let ?s = "run es initial_session"
  have b: "steps ?s \<le> TOTAL_STEPS" using reachable_bounds[of es] by simp
  have "steps ?s \<le> steps (run es' ?s)" using run_bounds[OF b, of es'] by simp
  then have 1: "steps ?s \<le> steps (run (es @ es') initial_session)" by (simp add: run_append)
  have 2: "steps (stepDetection a now ?s) = steps ?s
           \<or> steps (stepDetection a now ?s) = steps ?s + 1"
    using stepDetection_steps[of a now ?s] b by (auto simp: min_def)
  show ?thesis using 1 2 beaconCorrection_ge[of ?s cps bs] by simp
qed

theorem C6_steps_never_decrease_witness:
  "steps (run [Permission granted, CalibrationComplete, Beacons [hallway_beacon]] initial_session) = 5
   \<and> steps (run ([Permission granted, CalibrationComplete, Beacons [hallway_beacon]] @ stride 1000)
        initial_session) = 6
   \<and> steps (run [Permission granted, CalibrationComplete, Beacons [hallway_beacon]] initial_session)
       \<le> steps (run ([Permission granted, CalibrationComplete, Beacons [hallway_beacon]] @ stride 1000)
            initial_session)
   \<and> steps (run [Permission granted, CalibrationComplete, Beacons [hallway_beacon]] initial_session)
       \<le> steps (beaconCorrection BEACON_CHECKPOINTS [hallway_beacon]
            (run [Permission granted, CalibrationComplete, Beacons [hallway_beacon]] initial_session))"
proof -
  have 1: "steps (run [Permission granted, CalibrationComplete, Beacons [hallway_beacon]]
             initial_session) = 5"
    by (simp add: session_eval)
  have 2: "steps (run ([Permission granted, CalibrationComplete, Beacons [hallway_beacon]]
             @ stride 1000) initial_session) = 6"
    by (simp add: session_eval)
  show ?thesis
    using 1 2 C6_steps_never_decrease
      [of "[Permission granted, CalibrationComplete, Beacons [hallway_beacon]]" "stride 1000"
          None 0 BEACON_CHECKPOINTS "[hallway_beacon]"]
    by simp
qed

text \<open>
  Claim C10: in every session the step count stays between 0 and \<open>TOTAL_STEPS\<close>: a
  detected step stores \<open>min (previous + 1) TOTAL_STEPS\<close> and the configured checkpoint
  snaps to 5. So \<open>stepsRemaining\<close> is \<open>TOTAL_STEPS - steps\<close> without the help of the
  clamp at 0, and a session that has arrived has counted exactly \<open>TOTAL_STEPS\<close> steps.
\<close>

theorem C10_step_count_capped:
  "0 \<le> steps (run es initial_session)
   \<and> steps (run es initial_session) \<le> TOTAL_STEPS
   \<and> TOTAL_STEPS = 10
   \<and> (steps (stepDetection a now s) = steps s
      \<or> steps (stepDetection a now s) = min (steps s + 1) TOTAL_STEPS)
   \<and> map step_checkpoint BEACON_CHECKPOINTS = [5]
   \<and> stepsRemaining (run es initial_session) = TOTAL_STEPS - steps (run es initial_session)
   \<and> (navState (run es initial_session) = ARRIVED
        \<longrightarrow> steps (run es initial_session) = TOTAL_STEPS)"
proof -
  let ?s = "run es initial_session"
  have b: "0 \<le> steps ?s \<and> steps ?s \<le> TOTAL_STEPS" by (rule reachable_bounds)
  have arr: "navState ?s = ARRIVED \<longrightarrow> steps ?s = TOTAL_STEPS"
    by (rule arrived_has_all_steps) (simp_all add: initial_session_def TOTAL_STEPS_def)
  have det: "steps (stepDetection a now s) = steps s
      \<or> steps (stepDetection a now s) = min (steps s + 1) TOTAL_STEPS"
    using stepDetection_steps[of a now s] by blast
  have rem: "stepsRemaining ?s = TOTAL_STEPS - steps ?s"
    using b by (simp add: stepsRemaining_def)
  show ?thesis using b arr det rem by (simp add: BEACON_CHECKPOINTS_def TOTAL_STEPS_def)
qed

theorem C10_step_count_capped_witness:
  "navState (run sample_walk initial_session) = ARRIVED
   \<and> steps (run sample_walk initial_session) = 10
   \<and> stepsRemaining (run sample_walk initial_session) = 0"
proof -
  have r: "run sample_walk initial_session =
     \<lparr>navState = ARRIVED, steps = 10, lastStepTimeRef = 5100, isPotentialStepRef = False\<rparr>"
    by (simp add: session_eval)
  have n: "navState (run sample_walk initial_session) = ARRIVED" by (simp add: r)
  show ?thesis
    using n C10_step_count_capped[of sample_walk None 0 initial_session]
    by (simp add: TOTAL_STEPS_def)
qed


subsection \<open>The step detector\<close>















subsection \<open>The heading filter\<close>


lemma atan2_scale:
  assumes "0 < c"
  shows "atan2 (y / c) (x / c) = atan2 y x"
proof -
  have "(y / c) / (x / c) = y / x" using assms by simp
  then show ?thesis using assms
    by (simp add: atan2_def zero_less_divide_iff divide_less_0_iff zero_le_divide_iff)
qed


text \<open>
  In exact arithmetic the code's formula, which averages the unit vectors, gives the
  angle of their sum: the circular mean as the specification words it.
\<close>

lemma averageHeading_spec:
  assumes "buf \<noteq> []"
  shows "averageHeading buf = circular_mean_spec buf"
proof -
  have "0 < real (length buf)" using assms by simp
  from atan2_scale[OF this] show ?thesis
    by (simp add: averageHeading_def circular_mean_spec_def Let_def)
qed











lemma averageHeading_half_turn: "averageHeading [180, 90] = 135"
  by (simp add: averageHeading_def Let_def atan2_def arctan_minus arctan_one)

lemma averageHeading_east: "averageHeading [90] = 90"
  by (simp add: averageHeading_def Let_def atan2_def)

text \<open>
  Claim C7 says that every session starts with an empty smoothing buffer of its own.
  In the code the buffer belongs to the module: a hook instance mounted for a second
  session finds the sample left by the first one. After a first session has seen the
  heading 180, the first sample of a second session, 90, is smoothed to 135; on a
  freshly loaded module the same sample gives 90.
\<close>

theorem C7_buffer_shared_across_sessions:
  "headingBuffer (fst (handleOrientation \<lparr>alpha = Some 180, webkitCompassHeading = None\<rparr>
       (module_load, useDeviceSensors))) = [180]
   \<and> heading (snd (handleOrientation \<lparr>alpha = Some 270, webkitCompassHeading = None\<rparr>
       (fst (handleOrientation \<lparr>alpha = Some 180, webkitCompassHeading = None\<rparr>
          (module_load, useDeviceSensors)), useDeviceSensors))) = Some 135
   \<and> heading (snd (handleOrientation \<lparr>alpha = Some 270, webkitCompassHeading = None\<rparr>
       (module_load, useDeviceSensors))) = Some 90"
  by (simp add: handleOrientation_def getSmoothedHeading_def pushHeading_def Let_def
      module_load_def useDeviceSensors_def HEADING_SMOOTHING_BUFFER_SIZE_def
      averageHeading_half_turn averageHeading_east)




















subsection \<open>Calibration inside the application\<close>

lemma deviceorientation_idle:
  assumes "permissionState h \<noteq> granted"
  shows "deviceorientation ev (m, h) = (m, h)"
  using assms by (simp add: deviceorientation_def)

lemma deviceorientation_permission:
  "permissionState (snd (deviceorientation ev (m, h))) = permissionState h"
  by (simp add: deviceorientation_def split: prod.split)

lemma handleOrientation_heading:
  assumes "heading s \<noteq> None \<or> alpha ev \<noteq> None"
  shows "heading (snd (handleOrientation ev (m, s))) \<noteq> None"
  using assms by (auto simp: handleOrientation_def Let_def split: option.split prod.split)



lemma not_complete_empty: "coveredSegments c = [] \<Longrightarrow> \<not> isComplete c"
  by (simp add: isComplete_def progress_def)

lemma calibration_step_empty:
  assumes "coveredSegments c = []" and "completeTimer c = None"
    and "\<forall>h. e \<noteq> HeadingSample (Some h)"
  shows "coveredSegments (calibration_step e c) = []
       \<and> completeTimer (calibration_step e c) = None"
proof (cases e)
  case (HeadingSample ho)
  then show ?thesis using assms by (cases ho) (simp_all add: calibration_step_def)
next
  case (Tick d)
  then show ?thesis using assms
    by (simp add: calibration_step_def onComplete_def expire_def remaining_def Let_def)
next
  case SkipClick
  then show ?thesis using assms by (simp add: calibration_step_def onComplete_def)
next
  case CallbackChange
  then show ?thesis using assms not_complete_empty[of c]
    by (simp add: calibration_step_def rearm_def)
qed

lemma app_step_deaf:
  assumes "deaf a"
  shows "deaf (app_step e a)"
proof (cases e)
  case (Orientation ev)
  obtain m1 p1 where p: "deviceorientation ev (app_module a, parent_hook a) = (m1, p1)"
    by (cases "deviceorientation ev (app_module a, parent_hook a)")
  have q: "deviceorientation ev (m1, modal_hook a) = (m1, modal_hook a)"
    using assms by (intro deviceorientation_idle) (simp add: deaf_def)
  have c: "coveredSegments (calibration_step CallbackChange (modal a)) = []
       \<and> completeTimer (calibration_step CallbackChange (modal a)) = None"
    using assms by (intro calibration_step_empty) (simp_all add: deaf_def)
  show ?thesis using assms c
    by (simp add: Orientation app_step_def p q deaf_def Let_def)
next
  case Motion
  have "coveredSegments (calibration_step CallbackChange (modal a)) = []
       \<and> completeTimer (calibration_step CallbackChange (modal a)) = None"
    using assms by (intro calibration_step_empty) (simp_all add: deaf_def)
  then show ?thesis using assms by (simp add: Motion app_step_def deaf_def)
next
  case (Elapse d)
  have "coveredSegments (calibration_step (Tick d) (modal a)) = []
       \<and> completeTimer (calibration_step (Tick d) (modal a)) = None"
    using assms by (intro calibration_step_empty) (simp_all add: deaf_def)
  then show ?thesis using assms by (simp add: Elapse app_step_def deaf_def)
next
  case Click
  have "coveredSegments (calibration_step SkipClick (modal a)) = []
       \<and> completeTimer (calibration_step SkipClick (modal a)) = None"
    using assms by (intro calibration_step_empty) (simp_all add: deaf_def)
  then show ?thesis using assms by (simp add: Click app_step_def deaf_def)
qed

lemma app_run_deaf: "deaf a \<Longrightarrow> deaf (app_run es a)"
  by (induction es arbitrary: a) (simp_all add: app_step_deaf)

lemma enter_calibration_deaf: "deaf (enter_calibration m p)"
  by (simp add: deaf_def enter_calibration_def mountHook_def useDeviceSensors_def
      calibration_mount_def)

lemma app_step_no_click:
  assumes "deaf a" and "e \<noteq> Click"
  shows "completions (modal (app_step e a)) = completions (modal a)
       \<and> mounted (modal (app_step e a)) = mounted (modal a)"
proof -
  have cb: "calibration_step CallbackChange (modal a) = modal a"
  proof (cases "mounted (modal a)")
    case True
    have "\<not> isComplete (modal a)" using assms(1) by (simp add: deaf_def not_complete_empty)
    then have "rearm (modal a) = (modal a)\<lparr>completeTimer := completeTimer (modal a)\<rparr>"
      using assms(1) by (simp add: rearm_def deaf_def)
    then show ?thesis using True by (simp add: calibration_step_def)
  next
    case False
    then show ?thesis by (simp add: calibration_step_def)
  qed
  show ?thesis
  proof (cases e)
    case (Orientation ev)
    obtain m1 p1 where p: "deviceorientation ev (app_module a, parent_hook a) = (m1, p1)"
      by (cases "deviceorientation ev (app_module a, parent_hook a)")
    have q: "deviceorientation ev (m1, modal_hook a) = (m1, modal_hook a)"
      using assms(1) by (intro deviceorientation_idle) (simp add: deaf_def)
    show ?thesis by (simp add: Orientation app_step_def p q cb Let_def)
  next
    case Motion
    then show ?thesis by (simp add: app_step_def cb)
  next
    case (Elapse d)
    then show ?thesis using assms(1)
      by (simp add: app_step_def calibration_step_def deaf_def expire_def remaining_def Let_def)
  next
    case Click
    then show ?thesis using assms(2) by simp
  qed
qed

lemma app_run_no_click:
  assumes "deaf a" and "Click \<notin> set es"
  shows "completions (modal (app_run es a)) = completions (modal a)
       \<and> mounted (modal (app_run es a)) = mounted (modal a)"
  using assms
proof (induction es arbitrary: a)
  case Nil
  show ?case by simp
next
  case (Cons e es)
  have e: "e \<noteq> Click" and rest: "Click \<notin> set es" using Cons.prems(2) by auto
  have d: "deaf (app_step e a)" using Cons.prems(1) by (rule app_step_deaf)
  from Cons.IH[OF d rest] app_step_no_click[OF Cons.prems(1) e] show ?case by simp
qed

lemma app_step_parent_permission:
  "permissionState (parent_hook (app_step e a)) = permissionState (parent_hook a)"
proof (cases e)
  case (Orientation ev)
  obtain m1 p1 where p: "deviceorientation ev (app_module a, parent_hook a) = (m1, p1)"
    by (cases "deviceorientation ev (app_module a, parent_hook a)")
  obtain m2 q1 where q: "deviceorientation ev (m1, modal_hook a) = (m2, q1)"
    by (cases "deviceorientation ev (m1, modal_hook a)")
  have "permissionState p1 = permissionState (parent_hook a)"
    using deviceorientation_permission[of ev "app_module a" "parent_hook a"] p by simp
  then show ?thesis by (simp add: Orientation app_step_def p q Let_def)
qed (simp_all add: app_step_def)

lemma app_run_parent_permission:
  "permissionState (parent_hook (app_run es a)) = permissionState (parent_hook a)"
  by (induction es arbitrary: a) (simp_all add: app_step_parent_permission)

lemma parent_hears:
  assumes "permissionState (parent_hook a) = granted"
  shows "heading (sensors (parent_hook (app_step (turn_to x) a))) \<noteq> None"
proof -
  let ?ev = "\<lparr>alpha = Some x, webkitCompassHeading = None\<rparr>"
  obtain m1 s1 where h: "handleOrientation ?ev (app_module a, sensors (parent_hook a)) = (m1, s1)"
    by (cases "handleOrientation ?ev (app_module a, sensors (parent_hook a))")
  have "heading (snd (handleOrientation ?ev (app_module a, sensors (parent_hook a)))) \<noteq> None"
    by (intro handleOrientation_heading) simp
  then have s1: "heading s1 \<noteq> None" by (simp add: h)
  have p: "deviceorientation ?ev (app_module a, parent_hook a)
             = (m1, (parent_hook a)\<lparr>sensors := s1\<rparr>)"
    using assms by (simp add: deviceorientation_def h)
  obtain m2 q1 where q: "deviceorientation ?ev (m1, modal_hook a) = (m2, q1)"
    by (cases "deviceorientation ?ev (m1, modal_hook a)")
  show ?thesis using s1 by (simp add: turn_to_def app_step_def p q Let_def)
qed

lemma rotation_split: "full_rotation = butlast full_rotation @ [turn_to 15]"
  by (simp add: full_rotation_def)

lemma rotation_no_click: "Click \<notin> set (full_rotation @ [Elapse 1500])"
  by (simp add: full_rotation_def turn_to_def)

lemma app_run_append: "app_run (es @ es') a = app_run es' (app_run es a)"
  by (induction es arbitrary: a) simp_all

text \<open>
  Whatever happens during calibration, the modal records no sector and its progress
  stays 0; without a click on the skip button it never calls \<^verbatim>\<open>onComplete\<close>.
\<close>

lemma calibration_makes_no_progress:
  "coveredSegments (modal (app_run es (enter_calibration m p))) = []
   \<and> progress (modal (app_run es (enter_calibration m p))) = 0
   \<and> \<not> isComplete (modal (app_run es (enter_calibration m p)))"
proof -
  have "deaf (app_run es (enter_calibration m p))"
    using enter_calibration_deaf by (rule app_run_deaf)
  then show ?thesis by (simp add: deaf_def progress_def isComplete_def)
qed

text \<open>
  Claim C9 has every heading sample recorded in its sector, progress 1 once all twelve
  sectors are seen, and the completion signal fired once. In the code the modal reads
  \<^verbatim>\<open>heading\<close> from an instance of the hook of its own, whose permission state is never
  granted, so no sample reaches it. After a full turn of the device through all twelve
  sectors and a further 1500 ms the parent has a heading, the modal has none, no sector
  is covered, progress is 0 and \<^verbatim>\<open>onComplete\<close> has not been called.
\<close>

theorem C9_modal_receives_no_heading:
  "heading (sensors (parent_hook (app_run (full_rotation @ [Elapse 1500]) calibration_start)))
     \<noteq> None
   \<and> heading (sensors (modal_hook (app_run (full_rotation @ [Elapse 1500]) calibration_start)))
     = None
   \<and> coveredSegments (modal (app_run (full_rotation @ [Elapse 1500]) calibration_start)) = []
   \<and> progress (modal (app_run (full_rotation @ [Elapse 1500]) calibration_start)) = 0
   \<and> mounted (modal (app_run (full_rotation @ [Elapse 1500]) calibration_start))
   \<and> completions (modal (app_run (full_rotation @ [Elapse 1500]) calibration_start)) = 0"
proof -
  let ?end = "app_run (full_rotation @ [Elapse 1500]) calibration_start"
  have d0: "deaf calibration_start"
    unfolding calibration_start_def by (rule enter_calibration_deaf)
  have d: "deaf ?end" using d0 by (rule app_run_deaf)
  have c: "completions (modal ?end) = 0 \<and> mounted (modal ?end)"
    using app_run_no_click[OF d0 rotation_no_click]
    by (simp add: calibration_start_def enter_calibration_def calibration_mount_def)
  let ?mid = "app_run (butlast full_rotation) calibration_start"
  have g: "permissionState (parent_hook ?mid) = granted"
    by (simp add: app_run_parent_permission calibration_start_def enter_calibration_def
        requestPermissions_def)
  have "?end = app_step (Elapse 1500) (app_step (turn_to 15) ?mid)"
    by (subst rotation_split) (simp add: app_run_append)
  then have "parent_hook ?end = parent_hook (app_step (turn_to 15) ?mid)"
    by (simp add: app_step_def)
  then have p: "heading (sensors (parent_hook ?end)) \<noteq> None"
    using parent_hears[OF g, of 15] by simp
  show ?thesis using d c p by (simp add: deaf_def progress_def)
qed

end
